theory Spec2Isabelle
  imports Main "HOL-Library.Sublist"
begin

section \<open>The broadcast hub and its single-slot queues\<close>

text \<open>
  The model follows \<^verbatim>\<open>opcua_webhmi_bridge.py\<close>. A
  \<^verbatim>\<open>SingleElemOverwriteQueue\<close> is a mutable object that the hub and a
  connection handler share, so the queues live in a store: a channel is the identity
  of a queue object, and \<open>queue_slot\<close> gives the \<^verbatim>\<open>_queue\<close> attribute of
  each one (\<open>None\<close> for Python's \<^verbatim>\<open>None\<close>). The two attributes of the
  \<^verbatim>\<open>Hub\<close> are the other two fields.
\<close>

type_synonym chan = nat

record state =
  subscriptions :: "chan set"
  last_message :: "string option"
  queue_slot :: "chan \<Rightarrow> string option"

text \<open>Truth value of an \<^verbatim>\<open>Optional[str]\<close>: \<^verbatim>\<open>None\<close> and the empty string are false.\<close>

fun truthy :: "string option \<Rightarrow> bool" where
  "truthy None = False"
| "truthy (Some m) = (m \<noteq> [])"

text \<open>\<^verbatim>\<open>Hub.__init__\<close>; no queue object exists yet, every slot reads \<open>None\<close>.\<close>

definition Hub_init :: state where
  "Hub_init = \<lparr>subscriptions = {}, last_message = None, queue_slot = (\<lambda>_. None)\<rparr>"

text \<open>\<^verbatim>\<open>SingleElemOverwriteQueue._init\<close>, \<^verbatim>\<open>_put\<close> and \<^verbatim>\<open>_get\<close>.\<close>

definition queue_init :: "state \<Rightarrow> chan \<Rightarrow> state" where
  "queue_init s q = s\<lparr>queue_slot := (queue_slot s)(q := None)\<rparr>"

definition queue_put :: "state \<Rightarrow> chan \<Rightarrow> string \<Rightarrow> state" where
  "queue_put s q item = s\<lparr>queue_slot := (queue_slot s)(q := Some item)\<rparr>"

definition queue_get :: "state \<Rightarrow> chan \<Rightarrow> string option \<times> state" where
  "queue_get s q = (queue_slot s q, s\<lparr>queue_slot := (queue_slot s)(q := None)\<rparr>)"

text \<open>
  The methods inherited from \<^verbatim>\<open>asyncio.Queue\<close>, as CPython defines them.
  \<^verbatim>\<open>empty()\<close> is \<^verbatim>\<open>not self._queue\<close>. The queue is built with no
  \<^verbatim>\<open>maxsize\<close>, so \<^verbatim>\<open>full()\<close> is false and \<^verbatim>\<open>put_nowait\<close>
  never raises \<^verbatim>\<open>QueueFull\<close>: it is \<^verbatim>\<open>_put\<close> followed by the wake-up of
  a waiting getter. \<^verbatim>\<open>get()\<close> waits while the queue is empty and then takes the
  item with \<^verbatim>\<open>_get\<close>; the result \<open>None\<close> of \<open>get\<close> stands for a
  \<^verbatim>\<open>get()\<close> that stays suspended.
\<close>

definition empty :: "state \<Rightarrow> chan \<Rightarrow> bool" where
  "empty s q = (\<not> truthy (queue_slot s q))"

definition put_nowait :: "state \<Rightarrow> chan \<Rightarrow> string \<Rightarrow> state" where
  "put_nowait s q item = queue_put s q item"

definition get :: "state \<Rightarrow> chan \<Rightarrow> (string \<times> state) option" where
  "get s q =
     (if empty s q then None
      else case queue_get s q of
             (Some item, s') \<Rightarrow> Some (item, s')
           | (None, s') \<Rightarrow> None)"

text \<open>\<^verbatim>\<open>Hub.add_subscription\<close>, \<^verbatim>\<open>Hub.remove_subscription\<close>, \<^verbatim>\<open>Hub.publish\<close>.\<close>

datatype pyclass =
    BaseException | Exception | OSError | AsyncioTimeoutError | CancelledError
  | TypeError | LookupError | KeyError | OtherClass string

text \<open>
  An exception is known by the classes of its method resolution order, its own class
  first; \<^verbatim>\<open>isinstance\<close> and an \<^verbatim>\<open>except\<close> clause look a class up there.
\<close>

datatype exc = Exc (exc_mro: "pyclass list")

definition isinstance :: "exc \<Rightarrow> pyclass \<Rightarrow> bool" where
  "isinstance e C = (C \<in> set (exc_mro e))"

definition KeyError_exc :: exc where
  "KeyError_exc = Exc [KeyError, LookupError, Exception, BaseException]"

definition add_subscription :: "state \<Rightarrow> chan \<Rightarrow> state" where
  "add_subscription s subscription =
     (let s1 = s\<lparr>subscriptions := insert subscription (subscriptions s)\<rparr>
      in if truthy (last_message s1)
         then (case last_message s1 of
                 Some m \<Rightarrow> put_nowait s1 subscription m
               | None \<Rightarrow> s1)
         else s1)"

text \<open>\<^verbatim>\<open>set.remove\<close> raises \<^verbatim>\<open>KeyError\<close> when the element is absent.\<close>

definition remove_subscription :: "state \<Rightarrow> chan \<Rightarrow> exc + state" where
  "remove_subscription s subscription =
     (if subscription \<in> subscriptions s
      then Inr (s\<lparr>subscriptions := subscriptions s - {subscription}\<rparr>)
      else Inl KeyError_exc)"

text \<open>
  The loop of \<^verbatim>\<open>publish\<close> visits every queue of the set once and the queues
  are distinct objects, so the order of the visits does not show in the result.
\<close>

definition publish :: "state \<Rightarrow> string \<Rightarrow> state" where
  "publish s message =
     (let s1 = s\<lparr>last_message := Some message\<rparr>
      in s1\<lparr>queue_slot :=
              (\<lambda>q. if q \<in> subscriptions s1 then Some message else queue_slot s1 q)\<rparr>)"

text \<open>
  The context manager \<^verbatim>\<open>subscription\<close>: entering it builds a new queue object
  (of identity \<open>q\<close>) and registers it; leaving it, on every path, is
  \<open>remove_subscription\<close>.
\<close>

definition subscription_enter :: "state \<Rightarrow> chan \<Rightarrow> state" where
  "subscription_enter s q = add_subscription (queue_init s q) q"

definition subscription_exit :: "state \<Rightarrow> chan \<Rightarrow> exc + state" where
  "subscription_exit s q = remove_subscription s q"

text \<open>A sequence of publishes, one after the other.\<close>

fun publish_all :: "state \<Rightarrow> string list \<Rightarrow> state" where
  "publish_all s [] = s"
| "publish_all s (m # ms) = publish_all (publish s m) ms"

text \<open>
  One reader on channel \<open>q\<close> and the publisher take turns: \<open>Publish m\<close> is a call
  of \<open>publish\<close>, \<open>Get\<close> is the moment the reader's \<^verbatim>\<open>get()\<close> looks at the
  queue. A \<^verbatim>\<open>get()\<close> that finds the queue empty stays suspended and looks
  again at the next \<open>Get\<close>. The result lists what the completed gets returned.
\<close>

datatype chan_op = Publish string | Get

fun run_ops :: "state \<Rightarrow> chan \<Rightarrow> chan_op list \<Rightarrow> string list" where
  "run_ops s q [] = []"
| "run_ops s q (Publish m # ops) = run_ops (publish s m) q ops"
| "run_ops s q (Get # ops) =
     (case get s q of
        None \<Rightarrow> run_ops s q ops
      | Some (item, s') \<Rightarrow> item # run_ops s' q ops)"

fun published :: "chan_op list \<Rightarrow> string list" where
  "published [] = []"
| "published (Publish m # ops) = m # published ops"
| "published (Get # ops) = published ops"

text \<open>
  The same run, reporting with each returned message how many publishes had been made
  when the get returned it.
\<close>

fun run_counted :: "state \<Rightarrow> chan \<Rightarrow> nat \<Rightarrow> chan_op list \<Rightarrow> (nat \<times> string) list" where
  "run_counted s q n [] = []"
| "run_counted s q n (Publish m # ops) = run_counted (publish s m) q (Suc n) ops"
| "run_counted s q n (Get # ops) =
     (case get s q of
        None \<Rightarrow> run_counted s q n ops
      | Some (item, s') \<Rightarrow> (n, item) # run_counted s' q n ops)"

text \<open>The message that sits in a queue, as a list of at most one element.\<close>

definition waiting :: "state \<Rightarrow> chan \<Rightarrow> string list" where
  "waiting s q = (case queue_slot s q of None \<Rightarrow> [] | Some m \<Rightarrow> [m])"

section \<open>The JSON encoder and the subscription handler\<close>

text \<open>
  The values \<^verbatim>\<open>json.dumps\<close> is given. \<open>UaStruct\<close> is an object with a
  \<^verbatim>\<open>ua_types\<close> attribute, held as the names listed there with the value
  \<^verbatim>\<open>getattr\<close> reads for each; \<open>Opaque\<close> is any other object, without
  \<^verbatim>\<open>ua_types\<close> and unknown to the JSON encoder. Dictionaries have string
  keys and list their items in insertion order. A dictionary holds a key once: an item
  whose key has come before is the same entry, and in a \<open>UaStruct\<close> it carries the
  same value, \<^verbatim>\<open>getattr\<close> reading the same attribute. Floating-point numbers
  are left out.
\<close>

datatype pyval =
    PNone
  | PBool bool
  | PInt int
  | PStr string
  | PList "pyval list"
  | PDict "(string \<times> pyval) list"
  | UaStruct "(string \<times> pyval) list"
  | Opaque

definition TypeError_exc :: exc where
  "TypeError_exc = Exc [TypeError, Exception, BaseException]"

text \<open>\<^verbatim>\<open>int.__repr__\<close>: decimal digits, with a minus sign below zero.\<close>

definition digit_char :: "nat \<Rightarrow> char" where
  "digit_char n = char_of (48 + n)"

function str_nat :: "nat \<Rightarrow> string" where
  "str_nat n = (if n < 10 then [digit_char n] else str_nat (n div 10) @ [digit_char (n mod 10)])"
  by pat_completeness auto
termination
  by (relation "measure id") auto

definition str_int :: "int \<Rightarrow> string" where
  "str_int i = (if i < 0 then CHR ''-'' # str_nat (nat (- i)) else str_nat (nat i))"

text \<open>
  \<^verbatim>\<open>json.encoder.py_encode_basestring_ascii\<close>: the backslash, the double quote
  and every character outside the range from the space to the tilde are escaped, the
  ones without a short form as \<^verbatim>\<open>\u\<close> and four hexadecimal digits. A
  \<open>char\<close> stands for a code point below 256.
\<close>

definition hex_digit :: "nat \<Rightarrow> char" where
  "hex_digit n = (if n < 10 then char_of (48 + n) else char_of (87 + n))"

definition escape_char :: "char \<Rightarrow> string" where
  "escape_char c =
     (if c = CHR 0x5C then [CHR 0x5C, CHR 0x5C]
      else if c = CHR 0x22 then [CHR 0x5C, CHR 0x22]
      else if c = CHR 0x08 then [CHR 0x5C, CHR ''b'']
      else if c = CHR 0x0C then [CHR 0x5C, CHR ''f'']
      else if c = CHR 0x0A then [CHR 0x5C, CHR ''n'']
      else if c = CHR 0x0D then [CHR 0x5C, CHR ''r'']
      else if c = CHR 0x09 then [CHR 0x5C, CHR ''t'']
      else if of_char c < (32 :: nat) \<or> (126 :: nat) < of_char c
           then [CHR 0x5C, CHR ''u'', CHR ''0'', CHR ''0'',
                 hex_digit (of_char c div 16), hex_digit (of_char c mod 16)]
      else [c])"

definition encode_basestring_ascii :: "string \<Rightarrow> string" where
  "encode_basestring_ascii s = CHR 0x22 # concat (map escape_char s) @ [CHR 0x22]"

text \<open>\<^verbatim>\<open>', '.join(parts)\<close>.\<close>

fun join :: "string list \<Rightarrow> string" where
  "join [] = []"
| "join [p] = p"
| "join (p # ps) = p @ '', '' @ join ps"

text \<open>
  \<^verbatim>\<open>OPCUAEncoder.default\<close>: an object with \<^verbatim>\<open>ua_types\<close> becomes the
  dictionary of its fields; for any other object \<^verbatim>\<open>JSONEncoder.default\<close>
  raises \<^verbatim>\<open>TypeError\<close>. The encoder calls it only on values it does not know.
\<close>

fun default :: "pyval \<Rightarrow> exc + pyval" where
  "default (UaStruct attrs) = Inr (PDict attrs)"
| "default v = Inl TypeError_exc"

text \<open>
  \<^verbatim>\<open>json.dumps(obj, cls=OPCUAEncoder)\<close> with the separators of the default
  encoder. An exception ends the encoding at the first value that raises. The items of
  a dictionary are encoded with the keys already seen at hand, so that each key is
  printed once.
\<close>

fun json_dumps :: "pyval \<Rightarrow> exc + string"
  and json_dumps_list :: "pyval list \<Rightarrow> exc + string list"
  and json_dumps_items :: "string list \<Rightarrow> (string \<times> pyval) list \<Rightarrow> exc + string list" where
  "json_dumps PNone = Inr ''null''"
| "json_dumps (PBool b) = Inr (if b then ''true'' else ''false'')"
| "json_dumps (PInt i) = Inr (str_int i)"
| "json_dumps (PStr s) = Inr (encode_basestring_ascii s)"
| "json_dumps (PList xs) =
     (case json_dumps_list xs of
        Inl e \<Rightarrow> Inl e
      | Inr parts \<Rightarrow> Inr (''['' @ join parts @ '']''))"
| "json_dumps (PDict items) =
     (case json_dumps_items [] items of
        Inl e \<Rightarrow> Inl e
      | Inr parts \<Rightarrow> Inr (''{'' @ join parts @ ''}''))"
| "json_dumps (UaStruct attrs) =
     (case json_dumps_items [] attrs of
        Inl e \<Rightarrow> Inl e
      | Inr parts \<Rightarrow> Inr (''{'' @ join parts @ ''}''))"
| "json_dumps Opaque = Inl TypeError_exc"
| "json_dumps_list [] = Inr []"
| "json_dumps_list (x # xs) =
     (case json_dumps x of
        Inl e \<Rightarrow> Inl e
      | Inr p \<Rightarrow> (case json_dumps_list xs of Inl e \<Rightarrow> Inl e | Inr ps \<Rightarrow> Inr (p # ps)))"
| "json_dumps_items seen [] = Inr []"
| "json_dumps_items seen ((k, v) # items) =
     (if k \<in> set seen then json_dumps_items seen items
      else case json_dumps v of
             Inl e \<Rightarrow> Inl e
           | Inr p \<Rightarrow>
               (case json_dumps_items (k # seen) items of
                  Inl e \<Rightarrow> Inl e
                | Inr ps \<Rightarrow> Inr ((encode_basestring_ascii k @ '': '' @ p) # ps)))"

text \<open>
  A value has an unencodable component when an object without \<^verbatim>\<open>ua_types\<close>
  that the JSON encoder does not know occurs in it, at any depth, in an entry of its
  own (not under a key that has come before).
\<close>

fun unencodable :: "pyval \<Rightarrow> bool"
  and unencodable_list :: "pyval list \<Rightarrow> bool"
  and unencodable_items :: "string list \<Rightarrow> (string \<times> pyval) list \<Rightarrow> bool" where
  "unencodable PNone = False"
| "unencodable (PBool b) = False"
| "unencodable (PInt i) = False"
| "unencodable (PStr s) = False"
| "unencodable (PList xs) = unencodable_list xs"
| "unencodable (PDict items) = unencodable_items [] items"
| "unencodable (UaStruct attrs) = unencodable_items [] attrs"
| "unencodable Opaque = True"
| "unencodable_list [] = False"
| "unencodable_list (x # xs) = (unencodable x \<or> unencodable_list xs)"
| "unencodable_items seen [] = False"
| "unencodable_items seen ((k, v) # items) =
     (if k \<in> set seen then unencodable_items seen items
      else unencodable v \<or> unencodable_items (k # seen) items)"

text \<open>
  \<^verbatim>\<open>OPCUASubscriptionHandler.datachange_notification\<close>, given the identifier
  of the node and the value. The argument of \<^verbatim>\<open>publish\<close> is evaluated before
  the call. The result is the exception raised, if any, and the state the call leaves.
\<close>

definition datachange_notification :: "state \<Rightarrow> string \<Rightarrow> pyval \<Rightarrow> exc option \<times> state" where
  "datachange_notification s identifier val =
     (let node_id = filter (\<lambda>c. c \<noteq> CHR 0x22) identifier
      in case json_dumps (PDict [(''type'', PStr ''opc_data_change''),
                                 (''node'', PStr node_id),
                                 (''data'', val)]) of
           Inl e \<Rightarrow> (Some e, s)
         | Inr message \<Rightarrow> (None, publish s message))"

section \<open>The upstream connector\<close>

text \<open>How far a coroutine has come: still suspended, returned, or left by an exception.\<close>

datatype outcome = Running | Returned | Raised exc

text \<open>
  \<^verbatim>\<open>opcua_task\<close>. The body of its \<^verbatim>\<open>try\<close> statement connects,
  subscribes and then checks the server state in a loop without exit, so an attempt
  ends only by an exception. The input lists the exceptions of the attempts that have
  ended, in order; after them the task is still inside its loop. The result is the
  trace of what the task did and its outcome. \<open>retrying\<close> is the variable of that
  name, read at the head of the loop.
\<close>

datatype opcua_event =
    LogRetry int
  | Sleep int
  | Connect
  | LogClientError exc

definition CancelledError_exc :: exc where
  "CancelledError_exc = Exc [CancelledError, BaseException]"

text \<open>The clause \<^verbatim>\<open>except (OSError, asyncio.TimeoutError)\<close>.\<close>

definition retryable :: "exc \<Rightarrow> bool" where
  "retryable e = (isinstance e OSError \<or> isinstance e AsyncioTimeoutError)"

fun opcua_loop :: "int \<Rightarrow> bool \<Rightarrow> exc list \<Rightarrow> opcua_event list \<times> outcome" where
  "opcua_loop retry_delay retrying [] = ([], Running)"
| "opcua_loop retry_delay retrying (e # es) =
     (let before = (if retrying then [LogRetry retry_delay, Sleep retry_delay] else [])
                   @ [Connect]
      in if retryable e
         then (case opcua_loop retry_delay True es of
                 (tr, out) \<Rightarrow> (before @ [LogClientError e] @ tr, out))
         else (before, Raised e))"

definition opcua_task :: "int \<Rightarrow> exc list \<Rightarrow> opcua_event list \<times> outcome" where
  "opcua_task retry_delay es = opcua_loop retry_delay False es"

text \<open>
  The trace of \<open>n\<close> failed attempts as the retry policy describes it: the first
  attempt at once, every later one after a sleep of the configured delay.
\<close>

fun retry_trace :: "int \<Rightarrow> exc list \<Rightarrow> opcua_event list" where
  "retry_trace retry_delay [] = []"
| "retry_trace retry_delay (e # es) =
     [Connect, LogClientError e]
     @ concat (map (\<lambda>e'. [LogRetry retry_delay, Sleep retry_delay, Connect, LogClientError e']) es)"

text \<open>
  The way a notification reaches the handler. \<^verbatim>\<open>opcua_task\<close> hands the
  \<^verbatim>\<open>OPCUASubscriptionHandler\<close> to \<^verbatim>\<open>client.create_subscription\<close> and
  never calls it; the asyncua library does, in
  \<^verbatim>\<open>Subscription._call_datachange\<close>, where the call stands in a
  \<^verbatim>\<open>try\<close> statement whose clause \<^verbatim>\<open>except Exception\<close> logs the
  exception (\<^verbatim>\<open>logger.exception\<close>) and goes on.
\<close>

datatype callback_result = Called | Logged exc | Uncaught exc

definition call_datachange :: "state \<Rightarrow> string \<Rightarrow> pyval \<Rightarrow> callback_result \<times> state" where
  "call_datachange s identifier val =
     (case datachange_notification s identifier val of
        (None, s') \<Rightarrow> (Called, s')
      | (Some e, s') \<Rightarrow>
          if isinstance e Exception then (Logged e, s') else (Uncaught e, s'))"

text \<open>
  What happens while \<^verbatim>\<open>opcua_task\<close> runs: a notification arrives, or the body
  of the \<^verbatim>\<open>try\<close> statement raises. \<open>session\<close> gives the exceptions that
  reach the \<^verbatim>\<open>except\<close> clause of \<^verbatim>\<open>opcua_task\<close>, the exceptions the
  library logged, and the state. An exception of the handler that the library does
  not catch is counted among the first, the worst case for the task. Nothing happens
  after an exception that \<^verbatim>\<open>opcua_task\<close> does not catch.
\<close>

datatype session_event = Notify string pyval | BodyRaises exc

fun session :: "state \<Rightarrow> session_event list \<Rightarrow> exc list \<times> exc list \<times> state" where
  "session s [] = ([], [], s)"
| "session s (Notify identifier val # evs) =
     (case call_datachange s identifier val of
        (Called, s') \<Rightarrow> session s' evs
      | (Logged e, s') \<Rightarrow>
          (case session s' evs of (es, logged, s'') \<Rightarrow> (es, e # logged, s''))
      | (Uncaught e, s') \<Rightarrow>
          if retryable e
          then (case session s' evs of (es, logged, s'') \<Rightarrow> (e # es, logged, s''))
          else ([e], [], s'))"
| "session s (BodyRaises e # evs) =
     (if retryable e
      then (case session s evs of (es, logged, s') \<Rightarrow> (e # es, logged, s'))
      else ([e], [], s))"

definition opcua_task_session ::
  "int \<Rightarrow> state \<Rightarrow> session_event list
     \<Rightarrow> (opcua_event list \<times> outcome) \<times> exc list \<times> state" where
  "opcua_task_session retry_delay s evs =
     (case session s evs of
        (es, logged, s') \<Rightarrow> (opcua_task retry_delay es, logged, s'))"

section \<open>The connection handlers\<close>

text \<open>
  A handler runs between two tasks, the pending \<^verbatim>\<open>queue.get()\<close> and the
  wait for the close of the connection, and is driven by what
  \<^verbatim>\<open>asyncio.wait\<close> returns each time: the message task alone is done
  (with its result, and with the exception \<^verbatim>\<open>websocket.send\<close> raises, if
  any), the close task alone is done (so the message task is pending), or both are
  done (the flag tells whether the loop over the set \<^verbatim>\<open>done\<close> visits the
  message task first). \<open>Thrown\<close> is an exception thrown into the handler while
  it waits, as a cancellation at shutdown is.
\<close>

datatype task = TaskMsgWait | TaskClientDisconnect

datatype wait_result =
    MsgDone string "exc option"
  | CloseDone
  | BothDone bool string "exc option"
  | Thrown exc

datatype handler_event =
    LogConnected string
  | LogDisconnected string
  | AddSubscription chan
  | RemoveSubscription chan
  | CreateTask task
  | Send string
  | CancelTask task
  | AwaitTask task

fun done_tasks :: "wait_result \<Rightarrow> task list" where
  "done_tasks (MsgDone m snd_exc) = [TaskMsgWait]"
| "done_tasks CloseDone = [TaskClientDisconnect]"
| "done_tasks (BothDone msg_first m snd_exc) =
     (if msg_first then [TaskMsgWait, TaskClientDisconnect]
      else [TaskClientDisconnect, TaskMsgWait])"
| "done_tasks (Thrown e) = []"

fun pending_tasks :: "wait_result \<Rightarrow> task list" where
  "pending_tasks (MsgDone m snd_exc) = [TaskClientDisconnect]"
| "pending_tasks CloseDone = [TaskMsgWait]"
| "pending_tasks (BothDone msg_first m snd_exc) = []"
| "pending_tasks (Thrown e) = [TaskMsgWait, TaskClientDisconnect]"

fun msg_result :: "wait_result \<Rightarrow> string" where
  "msg_result (MsgDone m snd_exc) = m"
| "msg_result (BothDone msg_first m snd_exc) = m"
| "msg_result w = []"

fun send_exc :: "wait_result \<Rightarrow> exc option" where
  "send_exc (MsgDone m snd_exc) = snd_exc"
| "send_exc (BothDone msg_first m snd_exc) = snd_exc"
| "send_exc w = None"

text \<open>
  The loop \<^verbatim>\<open>for task in done\<close>, the same in both handlers up to the text of
  the log line: the result of the message task is sent and a new
  \<^verbatim>\<open>queue.get()\<close> task is created; the close task sets the flag. The result
  is the trace, the flag and the exception that left the loop, if any.
\<close>

fun visit_done ::
  "string \<Rightarrow> task list \<Rightarrow> string \<Rightarrow> exc option \<Rightarrow> bool
     \<Rightarrow> handler_event list \<times> bool \<times> exc option" where
  "visit_done addr [] m snd_exc must_shutdown = ([], must_shutdown, None)"
| "visit_done addr (TaskMsgWait # ts) m snd_exc must_shutdown =
     (case snd_exc of
        Some e \<Rightarrow> ([Send m], must_shutdown, Some e)
      | None \<Rightarrow>
          (case visit_done addr ts m snd_exc must_shutdown of
             (tr, must, r) \<Rightarrow> ([Send m, CreateTask TaskMsgWait] @ tr, must, r)))"
| "visit_done addr (TaskClientDisconnect # ts) m snd_exc must_shutdown =
     (case visit_done addr ts m snd_exc True of
        (tr, must, r) \<Rightarrow> (LogDisconnected addr # tr, must, r))"

text \<open>
  Awaiting a task after \<^verbatim>\<open>cancel()\<close>, when the task was pending: the task
  ends cancelled and the \<^verbatim>\<open>await\<close> raises \<^verbatim>\<open>CancelledError\<close>.
\<close>

definition await_cancelled :: "task \<Rightarrow> exc option" where
  "await_cancelled t = Some CancelledError_exc"

text \<open>
  \<^verbatim>\<open>websockets_handler\<close>: in the loop \<^verbatim>\<open>for task in pending\<close> the
  \<^verbatim>\<open>await\<close> stands alone, so its exception leaves the loop.
\<close>

fun cancel_pending :: "task list \<Rightarrow> handler_event list \<times> exc option" where
  "cancel_pending [] = ([], None)"
| "cancel_pending (t # ts) =
     (case await_cancelled t of
        Some e \<Rightarrow> ([CancelTask t, AwaitTask t], Some e)
      | None \<Rightarrow>
          (case cancel_pending ts of
             (tr, r) \<Rightarrow> ([CancelTask t, AwaitTask t] @ tr, r)))"

fun websockets_handler_loop :: "string \<Rightarrow> wait_result list \<Rightarrow> handler_event list \<times> outcome" where
  "websockets_handler_loop addr [] = ([], Running)"
| "websockets_handler_loop addr (Thrown e # ws) = ([], Raised e)"
| "websockets_handler_loop addr (w # ws) =
     (case visit_done addr (done_tasks w) (msg_result w) (send_exc w) False of
        (tr, must_shutdown, Some e) \<Rightarrow> (tr, Raised e)
      | (tr, must_shutdown, None) \<Rightarrow>
          if must_shutdown
          then (case cancel_pending (pending_tasks w) of
                  (tr', Some e) \<Rightarrow> (tr @ tr', Raised e)
                | (tr', None) \<Rightarrow> (tr @ tr', Returned))
          else (case websockets_handler_loop addr ws of
                  (tr', out) \<Rightarrow> (tr @ tr', out)))"

text \<open>
  The context manager \<^verbatim>\<open>subscription\<close> around a body: the new queue is
  registered before the body runs, and \<^verbatim>\<open>remove_subscription\<close> is called
  when the body is left, by return or by exception. The queue is in the set at that
  moment (nothing else removes it), so that call does not raise.
\<close>

definition subscription ::
  "chan \<Rightarrow> handler_event list \<times> outcome \<Rightarrow> handler_event list \<times> outcome" where
  "subscription q body =
     (case body of
        (tr, out) \<Rightarrow>
          (AddSubscription q # tr @ (if out = Running then [] else [RemoveSubscription q]),
           out))"

text \<open>
  \<^verbatim>\<open>websockets_handler\<close>, for the connection of the peer \<open>remote_address\<close>
  and the queue \<open>q\<close>.
\<close>

definition websockets_handler ::
  "string \<Rightarrow> chan \<Rightarrow> wait_result list \<Rightarrow> handler_event list \<times> outcome" where
  "websockets_handler remote_address q ws =
     (let client_address = remote_address
      in case subscription q
                (case websockets_handler_loop client_address ws of
                   (tr, out) \<Rightarrow>
                     ([CreateTask TaskMsgWait, CreateTask TaskClientDisconnect] @ tr, out)) of
           (tr, out) \<Rightarrow> (LogConnected client_address # tr, out))"

text \<open>
  The request headers are the \<^verbatim>\<open>Headers\<close> of the websockets library: the
  header lines in the order received, looked up by name without regard to case
  (header names are ASCII). \<^verbatim>\<open>headers[key]\<close> raises \<^verbatim>\<open>KeyError\<close>
  when no line has the name, returns the value when one line has it, and raises
  \<^verbatim>\<open>MultipleValuesError\<close>, a \<^verbatim>\<open>LookupError\<close>, when several have it.
\<close>

definition lower_char :: "char \<Rightarrow> char" where
  "lower_char c =
     (case map_of (zip ''ABCDEFGHIJKLMNOPQRSTUVWXYZ'' ''abcdefghijklmnopqrstuvwxyz'') c of
        Some l \<Rightarrow> l
      | None \<Rightarrow> c)"

definition str_lower :: "string \<Rightarrow> string" where
  "str_lower s = map lower_char s"

definition header_values :: "(string \<times> string) list \<Rightarrow> string \<Rightarrow> string list" where
  "header_values request_headers key =
     map snd (filter (\<lambda>line. str_lower (fst line) = str_lower key) request_headers)"

definition MultipleValuesError_exc :: exc where
  "MultipleValuesError_exc =
     Exc [OtherClass ''MultipleValuesError'', LookupError, Exception, BaseException]"

definition headers_getitem :: "(string \<times> string) list \<Rightarrow> string \<Rightarrow> exc + string" where
  "headers_getitem request_headers key =
     (case header_values request_headers key of
        [] \<Rightarrow> Inl KeyError_exc
      | [v] \<Rightarrow> Inr v
      | v # v' # vs \<Rightarrow> Inl MultipleValuesError_exc)"

text \<open>
  \<^verbatim>\<open>get_client_address\<close> of \<^verbatim>\<open>websocket.py\<close>: the loop over the two
  header names returns at the first one the request has; \<^verbatim>\<open>KeyError\<close> is
  passed over, any other exception of the lookup leaves the function. After the loop
  the address of the peer is returned.
\<close>

fun get_client_address_loop ::
  "string list \<Rightarrow> (string \<times> string) list \<Rightarrow> string \<Rightarrow> exc + string \<times> string" where
  "get_client_address_loop [] request_headers remote_address =
     Inr (remote_address, ''socket peer name'')"
| "get_client_address_loop (header # headers) request_headers remote_address =
     (case headers_getitem request_headers header of
        Inr a \<Rightarrow> Inr (a, header)
      | Inl e \<Rightarrow>
          if isinstance e KeyError
          then get_client_address_loop headers request_headers remote_address
          else Inl e)"

definition get_client_address ::
  "(string \<times> string) list \<Rightarrow> string \<Rightarrow> exc + string \<times> string" where
  "get_client_address request_headers remote_address =
     get_client_address_loop [''X-Real-Ip'', ''X-Forwarded-For''] request_headers remote_address"

text \<open>
  \<^verbatim>\<open>_handler\<close> of \<^verbatim>\<open>websocket.py\<close>: the \<^verbatim>\<open>await\<close> of the
  cancelled task is inside \<^verbatim>\<open>try\<close>, and \<^verbatim>\<open>CancelledError\<close> is
  passed over.
\<close>

fun cancel_pending_pass :: "task list \<Rightarrow> handler_event list \<times> exc option" where
  "cancel_pending_pass [] = ([], None)"
| "cancel_pending_pass (t # ts) =
     (case await_cancelled t of
        Some e \<Rightarrow>
          if isinstance e CancelledError
          then (case cancel_pending_pass ts of
                  (tr, r) \<Rightarrow> ([CancelTask t, AwaitTask t] @ tr, r))
          else ([CancelTask t, AwaitTask t], Some e)
      | None \<Rightarrow>
          (case cancel_pending_pass ts of
             (tr, r) \<Rightarrow> ([CancelTask t, AwaitTask t] @ tr, r)))"

fun handler_loop :: "string \<Rightarrow> wait_result list \<Rightarrow> handler_event list \<times> outcome" where
  "handler_loop addr [] = ([], Running)"
| "handler_loop addr (Thrown e # ws) = ([], Raised e)"
| "handler_loop addr (w # ws) =
     (case visit_done addr (done_tasks w) (msg_result w) (send_exc w) False of
        (tr, must_stop, Some e) \<Rightarrow> (tr, Raised e)
      | (tr, must_stop, None) \<Rightarrow>
          if must_stop
          then (case cancel_pending_pass (pending_tasks w) of
                  (tr', Some e) \<Rightarrow> (tr @ tr', Raised e)
                | (tr', None) \<Rightarrow> (tr @ tr', Returned))
          else (case handler_loop addr ws of
                  (tr', out) \<Rightarrow> (tr @ tr', out)))"

text \<open>
  Modelled from the spec: \<^verbatim>\<open>hub.subscribe()\<close> of the module
  \<^verbatim>\<open>pubsub\<close>, which is not among the sources. By the specification it
  creates a new channel, adds it to the subscribers (writing the last message into
  it, if one is set) and returns a handle whose release triggers the unsubscribe.
\<close>

definition hub_subscribe ::
  "chan \<Rightarrow> handler_event list \<times> outcome \<Rightarrow> handler_event list \<times> outcome" where
  "hub_subscribe q body =
     (case body of
        (tr, out) \<Rightarrow>
          (AddSubscription q # tr @ (if out = Running then [] else [RemoveSubscription q]),
           out))"

text \<open>
  \<^verbatim>\<open>_handler\<close>. An exception of \<^verbatim>\<open>get_client_address\<close> leaves the
  handler before it has logged or subscribed.
\<close>

definition handler ::
  "(string \<times> string) list \<Rightarrow> string \<Rightarrow> chan \<Rightarrow> wait_result list
     \<Rightarrow> handler_event list \<times> outcome" where
  "handler request_headers remote_address q ws =
     (case get_client_address request_headers remote_address of
        Inl e \<Rightarrow> ([], Raised e)
      | Inr (client_address, address_from) \<Rightarrow>
          (let addr = client_address @ '' ('' @ address_from @ '')''
           in case hub_subscribe q
                     (case handler_loop addr ws of
                        (tr, out) \<Rightarrow>
                          ([CreateTask TaskMsgWait, CreateTask TaskClientDisconnect] @ tr, out)) of
                (tr, out) \<Rightarrow> (LogConnected addr # tr, out)))"

text \<open>What a handler does apart from logging.\<close>

fun is_log :: "handler_event \<Rightarrow> bool" where
  "is_log (LogConnected a) = True"
| "is_log (LogDisconnected a) = True"
| "is_log ev = False"

definition actions :: "handler_event list \<Rightarrow> handler_event list" where
  "actions tr = filter (\<lambda>ev. \<not> is_log ev) tr"

text \<open>A delivery: the message task alone is done and the send returns.\<close>

fun delivery :: "wait_result \<Rightarrow> bool" where
  "delivery (MsgDone m None) = True"
| "delivery w = False"

text \<open>
  The close of the connection completes with the get pending: after a run of
  deliveries, \<^verbatim>\<open>asyncio.wait\<close> returns the close task alone as done.
\<close>

fun close_pending :: "wait_result list \<Rightarrow> bool" where
  "close_pending [] = False"
| "close_pending (CloseDone # ws) = True"
| "close_pending (MsgDone m None # ws) = close_pending ws"
| "close_pending (w # ws) = False"

text \<open>What a handler does for a run of deliveries.\<close>

fun deliveries :: "wait_result list \<Rightarrow> handler_event list" where
  "deliveries [] = []"
| "deliveries (w # ws) = [Send (msg_result w), CreateTask TaskMsgWait] @ deliveries ws"

section \<open>Shutdown\<close>

text \<open>
  \<^verbatim>\<open>shutdown\<close>, given the name of the signal (if any), the tasks of
  \<^verbatim>\<open>asyncio.all_tasks()\<close> in the order the comprehension visits them, the
  current task, and what \<^verbatim>\<open>gather\<close> with \<^verbatim>\<open>return_exceptions\<close>
  returns for each task: a value or an exception object.
\<close>

datatype task_result = Value | ExcResult exc

datatype shutdown_event =
    LogSignal string
  | Cancel nat
  | LogWaiting nat
  | Gather "nat list"
  | LogShutdownError exc
  | LoopStop

fun log_results :: "task_result list \<Rightarrow> shutdown_event list" where
  "log_results [] = []"
| "log_results (Value # rs) = log_results rs"
| "log_results (ExcResult e # rs) =
     (if \<not> isinstance e CancelledError \<and> isinstance e Exception
      then LogShutdownError e # log_results rs
      else log_results rs)"

definition shutdown ::
  "string option \<Rightarrow> nat list \<Rightarrow> nat \<Rightarrow> (nat \<Rightarrow> task_result) \<Rightarrow> shutdown_event list" where
  "shutdown sig all_tasks current_task result_of =
     (let tasks = filter (\<lambda>t. t \<noteq> current_task) all_tasks;
          results = map result_of tasks
      in (case sig of Some name \<Rightarrow> [LogSignal name] | None \<Rightarrow> [])
         @ map Cancel tasks
         @ [LogWaiting (length tasks), Gather tasks]
         @ log_results results
         @ [LoopStop])"

section \<open>Properties of the hub\<close>

lemma subscriptions_publish: "subscriptions (publish s m) = subscriptions s"
  by (simp add: publish_def Let_def)

lemma last_message_publish: "last_message (publish s m) = Some m"
  by (simp add: publish_def Let_def)

lemma queue_slot_publish:
  "queue_slot (publish s m) q = (if q \<in> subscriptions s then Some m else queue_slot s q)"
  by (simp add: publish_def Let_def)

text \<open>For each subscribed queue, \<open>publish\<close> is a \<open>put_nowait\<close> of the message.\<close>

lemma publish_put_nowait:
  "q \<in> subscriptions s \<Longrightarrow>
   queue_slot (publish s m) q = queue_slot (put_nowait (s\<lparr>last_message := Some m\<rparr>) q m) q"
  by (simp add: queue_slot_publish put_nowait_def queue_put_def)

lemma subscriptions_publish_all: "subscriptions (publish_all s ms) = subscriptions s"
  by (induction ms arbitrary: s) (simp_all add: subscriptions_publish)

lemma last_message_publish_all:
  "ms \<noteq> [] \<Longrightarrow> last_message (publish_all s ms) = Some (last ms)"
proof (induction ms arbitrary: s)
  case Nil
  then show ?case by simp
next
  case (Cons m ms)
  show ?case
  proof (cases "ms = []")
    case True
    then show ?thesis by (simp add: last_message_publish)
  next
    case False
    with Cons.IH [of "publish s m"] show ?thesis by simp
  qed
qed

lemma queue_slot_publish_all:
  "ms \<noteq> [] \<Longrightarrow> q \<in> subscriptions s \<Longrightarrow> queue_slot (publish_all s ms) q = Some (last ms)"
proof (induction ms arbitrary: s)
  case Nil
  then show ?case by simp
next
  case (Cons m ms)
  show ?case
  proof (cases "ms = []")
    case True
    with Cons.prems show ?thesis by (simp add: queue_slot_publish)
  next
    case False
    with Cons.IH [of "publish s m"] Cons.prems show ?thesis
      by (simp add: subscriptions_publish)
  qed
qed

lemma get_Some_iff:
  "get s q = Some (m, s') \<longleftrightarrow>
     queue_slot s q = Some m \<and> m \<noteq> [] \<and> s' = s\<lparr>queue_slot := (queue_slot s)(q := None)\<rparr>"
  by (cases "queue_slot s q") (auto simp: get_def empty_def queue_get_def)

lemma get_returns:
  "queue_slot s q = Some m \<Longrightarrow> m \<noteq> [] \<Longrightarrow> map_option fst (get s q) = Some m"
  by (simp add: get_def empty_def queue_get_def)

lemma get_suspends:
  "\<not> truthy (queue_slot s q) \<Longrightarrow> get s q = None"
  by (simp add: get_def empty_def)

lemma queue_slot_add_subscription:
  "last_message s = Some m \<Longrightarrow> m \<noteq> [] \<Longrightarrow> queue_slot (add_subscription s q) q = Some m"
  by (simp add: add_subscription_def Let_def put_nowait_def queue_put_def)

text \<open>
  C1 (amended). After a sequence of publishes with at least one publish, the last of
  them not the empty string, a queue that subscribes with \<open>add_subscription\<close> has
  the last published message written into it at once, and its first read returns that
  message without a new publish. The same holds for the new queue of the context
  manager \<^verbatim>\<open>subscription\<close>.
\<close>

theorem first_read_after_subscribe:
  assumes "msgs \<noteq> []" and "last msgs \<noteq> []"
  shows "queue_slot (add_subscription (publish_all s msgs) q) q = Some (last msgs)
       \<and> map_option fst (get (add_subscription (publish_all s msgs) q) q) = Some (last msgs)
       \<and> map_option fst (get (subscription_enter (publish_all s msgs) q) q) = Some (last msgs)"
proof -
  from assms(1) have lm: "last_message (publish_all s msgs) = Some (last msgs)"
    by (rule last_message_publish_all)
  then have slot: "queue_slot (add_subscription (publish_all s msgs) q) q = Some (last msgs)"
    using assms(2) by (rule queue_slot_add_subscription)
  from lm have "last_message (queue_init (publish_all s msgs) q) = Some (last msgs)"
    by (simp add: queue_init_def)
  then have "queue_slot (subscription_enter (publish_all s msgs) q) q = Some (last msgs)"
    unfolding subscription_enter_def using assms(2) by (rule queue_slot_add_subscription)
  with slot assms(2) show ?thesis by (simp add: get_returns)
qed

theorem first_read_after_subscribe_witness:
  "[''a'', ''b''] \<noteq> [] \<and> last [''a'', ''b''] \<noteq> []
   \<and> queue_slot (add_subscription (publish_all Hub_init [''a'', ''b'']) 7) 7 = Some ''b''
   \<and> map_option fst (get (add_subscription (publish_all Hub_init [''a'', ''b'']) 7) 7) = Some ''b''"
  using first_read_after_subscribe [of "[''a'', ''b'']" Hub_init 7] by simp

text \<open>
  C1 as stated fails when the last published message is the empty string: the test
  \<^verbatim>\<open>if self._last_message\<close> is false for it, nothing is written into the new
  queue and its first read stays suspended.
\<close>

theorem first_read_empty_message_counterexample:
  "queue_slot (add_subscription (publish_all Hub_init [''a'', '''']) 7) 7 = None
   \<and> get (add_subscription (publish_all Hub_init [''a'', '''']) 7) 7 = None"
  by (simp add: add_subscription_def publish_def Hub_init_def Let_def get_def empty_def)

text \<open>
  C2 (amended). For a subscribed queue and a burst of \<open>N \<ge> 2\<close> publishes between two
  reads, the last of them not the empty string, the slot holds the \<open>N\<close>th message and
  the next read returns exactly that message.
\<close>

theorem burst_read_returns_latest:
  assumes "q \<in> subscriptions s" and "2 \<le> length msgs" and "last msgs \<noteq> []"
  shows "queue_slot (publish_all s msgs) q = Some (last msgs)
       \<and> map_option fst (get (publish_all s msgs) q) = Some (last msgs)"
proof -
  from assms(2) have "msgs \<noteq> []" by auto
  then have "queue_slot (publish_all s msgs) q = Some (last msgs)"
    using assms(1) by (rule queue_slot_publish_all)
  with assms(3) show ?thesis by (simp add: get_returns)
qed

theorem burst_read_returns_latest_witness:
  "7 \<in> subscriptions (subscription_enter Hub_init 7) \<and> 2 \<le> length [''a'', ''b'', ''c'']
   \<and> last [''a'', ''b'', ''c''] \<noteq> []
   \<and> map_option fst (get (publish_all (subscription_enter Hub_init 7) [''a'', ''b'', ''c'']) 7)
       = Some ''c''"
  using burst_read_returns_latest [of 7 "subscription_enter Hub_init 7" "[''a'', ''b'', ''c'']"]
  by (simp add: subscription_enter_def add_subscription_def queue_init_def Hub_init_def Let_def)

text \<open>
  C2 as stated fails when the \<open>N\<close>th message is the empty string: the slot holds it,
  but \<^verbatim>\<open>empty()\<close> is \<^verbatim>\<open>not self._queue\<close>, true of an empty string, so
  the read does not return it and stays suspended.
\<close>

theorem burst_read_empty_message_counterexample:
  "7 \<in> subscriptions (subscription_enter Hub_init 7)
   \<and> get (publish_all (subscription_enter Hub_init 7) [''a'', '''']) 7 = None"
  by (simp add: subscription_enter_def add_subscription_def queue_init_def Hub_init_def
        publish_def Let_def get_def empty_def)

lemma run_ops_subseq:
  "subseq (run_ops s q ops) (waiting s q @ published ops)"
proof (induction s q ops rule: run_ops.induct)
  case (1 s q)
  then show ?case by simp
next
  case (2 s q m ops)
  show ?case
  proof (cases "q \<in> subscriptions s")
    case True
    then have "waiting (publish s m) q = [m]"
      by (simp add: waiting_def queue_slot_publish)
    with 2 have "subseq (run_ops (publish s m) q ops) (m # published ops)" by simp
    then have "subseq (run_ops (publish s m) q ops) (waiting s q @ m # published ops)"
      by (rule list_emb_append2)
    then show ?thesis by simp
  next
    case False
    then have "waiting (publish s m) q = waiting s q"
      by (simp add: waiting_def queue_slot_publish)
    with 2 have "subseq (run_ops (publish s m) q ops) (waiting s q @ published ops)" by simp
    moreover have "subseq (published ops) (m # published ops)"
      by (rule list_emb_Cons) simp
    then have "subseq (waiting s q @ published ops) (waiting s q @ m # published ops)"
      by (intro list_emb_append_mono) simp_all
    ultimately show ?thesis using subseq_order.order_trans by auto
  qed
next
  case (3 s q ops)
  show ?case
  proof (cases "get s q")
    case None
    with 3 show ?thesis by simp
  next
    case (Some r)
    obtain item s' where "r = (item, s')" by (cases r)
    with Some have g: "get s q = Some (item, s')" by simp
    then have slot: "queue_slot s q = Some item"
      and s': "s' = s\<lparr>queue_slot := (queue_slot s)(q := None)\<rparr>"
      by (simp_all add: get_Some_iff)
    from s' have "waiting s' q = []" by (simp add: waiting_def)
    with 3(2) [OF g refl] have "subseq (run_ops s' q ops) (published ops)" by simp
    with g slot show ?thesis by (simp add: waiting_def)
  qed
qed

lemma run_counted_erase: "map snd (run_counted s q n ops) = run_ops s q ops"
  by (induction s q n ops rule: run_counted.induct) (auto split: option.splits)

lemma run_counted_ge: "(k, m) \<in> set (run_counted s q n ops) \<Longrightarrow> n \<le> k"
  by (induction s q n ops rule: run_counted.induct) (auto split: option.splits dest: Suc_leD)

lemma run_counted_gt:
  "\<not> truthy (queue_slot s q) \<Longrightarrow> (k, m) \<in> set (run_counted s q n ops) \<Longrightarrow> n < k"
proof (induction s q n ops rule: run_counted.induct)
  case (1 s q n)
  then show ?case by simp
next
  case (2 s q n m' ops)
  from 2(3) have "(k, m) \<in> set (run_counted (publish s m') q (Suc n) ops)" by simp
  then have "Suc n \<le> k" by (rule run_counted_ge)
  then show ?case by simp
next
  case (3 s q n ops)
  from 3(3) have "get s q = None" by (rule get_suspends)
  with 3 show ?case by simp
qed

lemma run_counted_sorted: "sorted_wrt (<) (map fst (run_counted s q n ops))"
proof (induction s q n ops rule: run_counted.induct)
  case (1 s q n)
  then show ?case by simp
next
  case (2 s q n m ops)
  then show ?case by simp
next
  case (3 s q n ops)
  show ?case
  proof (cases "get s q")
    case None
    with 3 show ?thesis by simp
  next
    case (Some r)
    obtain item s' where "r = (item, s')" by (cases r)
    with Some have g: "get s q = Some (item, s')" by simp
    then have "\<not> truthy (queue_slot s' q)" by (simp add: get_Some_iff)
    then have "\<forall>(k, m) \<in> set (run_counted s' q n ops). n < k"
      using run_counted_gt by blast
    with 3(2) [OF g refl] g show ?thesis by auto
  qed
qed

text \<open>
  The slot of a subscribed queue holds nothing, or what was there before the first
  publish, or the latest published message.
\<close>

lemma run_counted_latest:
  assumes "q \<in> subscriptions s"
    and "past = [] \<or> queue_slot s q = None \<or> queue_slot s q = Some (last past)"
    and "(k, m) \<in> set (run_counted s q (length past) ops)" and "0 < k"
  shows "k \<le> length (past @ published ops) \<and> m = (past @ published ops) ! (k - 1)"
  using assms
proof (induction ops arbitrary: s past)
  case Nil
  then show ?case by simp
next
  case (Cons op ops)
  show ?case
  proof (cases op)
    case (Publish m')
    let ?past = "past @ [m']"
    from Cons.prems(1) have sub: "q \<in> subscriptions (publish s m')"
      by (simp add: subscriptions_publish)
    from Cons.prems(1) have slot: "queue_slot (publish s m') q = Some (last ?past)"
      by (simp add: queue_slot_publish)
    from Cons.prems(3) Publish
    have "(k, m) \<in> set (run_counted (publish s m') q (length ?past) ops)" by simp
    with Cons.IH [of "publish s m'" ?past] sub slot Cons.prems(4)
    have "k \<le> length (?past @ published ops) \<and> m = (?past @ published ops) ! (k - 1)"
      by blast
    with Publish show ?thesis by simp
  next
    case Get
    show ?thesis
    proof (cases "get s q")
      case None
      with Cons.prems Get have "(k, m) \<in> set (run_counted s q (length past) ops)" by simp
      with Cons.IH [of s past] Cons.prems(1,2,4) Get show ?thesis by simp
    next
      case (Some r)
      obtain item s' where "r = (item, s')" by (cases r)
      with Some have g: "get s q = Some (item, s')" by simp
      then have slot: "queue_slot s q = Some item"
        and s': "s' = s\<lparr>queue_slot := (queue_slot s)(q := None)\<rparr>"
        by (simp_all add: get_Some_iff)
      from Cons.prems(3) Get g
      consider "k = length past" "m = item"
        | "(k, m) \<in> set (run_counted s' q (length past) ops)"
        by auto
      then show ?thesis
      proof cases
        case 1
        with Cons.prems(4) have "past \<noteq> []" by auto
        with Cons.prems(2) slot have "item = last past" by simp
        with 1 \<open>past \<noteq> []\<close> Get show ?thesis
          by (simp add: nth_append last_conv_nth)
      next
        case 2
        from s' Cons.prems(1) have "q \<in> subscriptions s'" and "queue_slot s' q = None"
          by simp_all
        with Cons.IH [of s' past] 2 Cons.prems(4) Get show ?thesis by simp
      qed
    qed
  qed
qed

text \<open>
  C3. For every interleaving of publishes and gets on one queue with one reader, the
  successive gets are monotonically fresh. \<open>run_counted\<close> is \<open>run_ops\<close> with a
  count of the publishes made so far; the counts reported with the returned messages
  strictly increase, and on a subscribed queue a get that returns at count \<open>k > 0\<close>
  returns the \<open>k\<close>th published message, the latest at that moment. So no get returns
  a message published before one that an earlier get returned, while messages in
  between may be skipped: the returned messages are a subsequence of the published
  ones (after the message that sat in the queue at the start).
\<close>

theorem gets_monotonically_fresh:
  "map snd (run_counted s q 0 ops) = run_ops s q ops
   \<and> sorted_wrt (<) (map fst (run_counted s q 0 ops))
   \<and> (q \<in> subscriptions s \<longrightarrow>
        (\<forall>(k, m) \<in> set (run_counted s q 0 ops).
            0 < k \<longrightarrow> k \<le> length (published ops) \<and> m = published ops ! (k - 1)))
   \<and> subseq (run_ops s q ops) (waiting s q @ published ops)"
proof (intro conjI impI)
  show "map snd (run_counted s q 0 ops) = run_ops s q ops"
    by (rule run_counted_erase)
  show "sorted_wrt (<) (map fst (run_counted s q 0 ops))"
    by (rule run_counted_sorted)
  show "subseq (run_ops s q ops) (waiting s q @ published ops)"
    by (rule run_ops_subseq)
next
  assume sub: "q \<in> subscriptions s"
  show "\<forall>(k, m) \<in> set (run_counted s q 0 ops).
            0 < k \<longrightarrow> k \<le> length (published ops) \<and> m = published ops ! (k - 1)"
  proof (clarify)
    fix k m
    assume "(k, m) \<in> set (run_counted s q 0 ops)" and "0 < k"
    with run_counted_latest [of q s "[]" k m ops] sub
    show "k \<le> length (published ops) \<and> m = published ops ! (k - 1)" by simp
  qed
qed

theorem gets_monotonically_fresh_witness:
  "7 \<in> subscriptions (subscription_enter Hub_init 7)
   \<and> run_counted (subscription_enter Hub_init 7) 7 0
       [Publish ''a'', Publish ''b'', Get, Get, Publish ''c'', Publish ''d'', Get]
     = [(2, ''b''), (4, ''d'')]
   \<and> run_ops (subscription_enter Hub_init 7) 7
       [Publish ''a'', Publish ''b'', Get, Get, Publish ''c'', Publish ''d'', Get]
     = [''b'', ''d'']
   \<and> published [Publish ''a'', Publish ''b'', Get, Get, Publish ''c'', Publish ''d'', Get]
     = [''a'', ''b'', ''c'', ''d'']"
  using gets_monotonically_fresh [of "subscription_enter Hub_init 7" 7
          "[Publish ''a'', Publish ''b'', Get, Get, Publish ''c'', Publish ''d'', Get]"]
  by (simp add: subscription_enter_def add_subscription_def queue_init_def Hub_init_def
        publish_def Let_def get_def empty_def queue_get_def)

text \<open>
  C8 (amended). \<open>remove_subscription\<close> removes a subscribed queue from the subscriber
  set and changes nothing else; called on a queue that is not in the set it raises
  \<^verbatim>\<open>KeyError\<close>, so a second call on the same queue always raises.
\<close>

theorem remove_subscription_once:
  "(q \<in> subscriptions s \<longrightarrow>
      remove_subscription s q = Inr (s\<lparr>subscriptions := subscriptions s - {q}\<rparr>))
   \<and> (q \<notin> subscriptions s \<longrightarrow> remove_subscription s q = Inl KeyError_exc)
   \<and> (\<forall>s'. remove_subscription s q = Inr s' \<longrightarrow>
         q \<notin> subscriptions s' \<and> remove_subscription s' q = Inl KeyError_exc)"
  by (auto simp: remove_subscription_def)

theorem remove_subscription_once_witness:
  "remove_subscription (subscription_enter Hub_init 7) 7 = Inr Hub_init
   \<and> remove_subscription Hub_init 7 = Inl KeyError_exc"
  using remove_subscription_once [of 7 "subscription_enter Hub_init 7"]
  by (simp add: subscription_enter_def add_subscription_def queue_init_def Hub_init_def Let_def)

text \<open>
  C8 as stated fails: after one successful call, the second call on the same queue
  does not return the same state, it raises \<^verbatim>\<open>KeyError\<close>.
\<close>

theorem remove_subscription_twice_counterexample:
  "remove_subscription (subscription_enter Hub_init 7) 7 = Inr Hub_init
   \<and> remove_subscription Hub_init 7 = Inl KeyError_exc
   \<and> remove_subscription Hub_init 7 \<noteq> Inr Hub_init"
  by (simp add: remove_subscription_def subscription_enter_def add_subscription_def
        queue_init_def Hub_init_def Let_def)

section \<open>Properties of the upstream connector\<close>

lemma opcua_loop_retrying:
  "\<forall>e\<in>set es. retryable e \<Longrightarrow>
   opcua_loop d True es =
     (concat (map (\<lambda>e'. [LogRetry d, Sleep d, Connect, LogClientError e']) es), Running)"
  by (induction es) simp_all

lemma opcua_task_retryable:
  "\<forall>e\<in>set es. retryable e \<Longrightarrow> opcua_task d es = (retry_trace d es, Running)"
  by (cases es) (simp_all add: opcua_task_def opcua_loop_retrying)

lemma opcua_loop_raises:
  "\<forall>e'\<in>set pre. retryable e' \<Longrightarrow> \<not> retryable e \<Longrightarrow>
   snd (opcua_loop d r (pre @ e # rest)) = Raised e"
  by (induction pre arbitrary: r) (simp_all add: split_beta)

lemma count_retrying:
  "count_list (concat (map (\<lambda>e'. [LogRetry d, Sleep d, Connect, LogClientError e']) es)) (Sleep d)
     = length es"
  "count_list (concat (map (\<lambda>e'. [LogRetry d, Sleep d, Connect, LogClientError e']) es)) Connect
     = length es"
  by (induction es) simp_all

lemma count_retry_trace:
  "count_list (retry_trace d es) (Sleep d) = length es - 1"
  "count_list (retry_trace d es) Connect = length es"
  by (cases es; simp add: count_retrying)+

text \<open>
  C5. When every connection attempt ends by an error of the network and timeout class,
  \<open>opcua_task\<close> goes on retrying: after any number of failed attempts it is still in
  its loop, it has neither returned nor raised, and it has slept the configured delay
  before each attempt but the first.
\<close>

theorem retries_forever:
  assumes "\<forall>e\<in>set es. retryable e"
  shows "opcua_task retry_delay es = (retry_trace retry_delay es, Running)
       \<and> count_list (fst (opcua_task retry_delay es)) Connect = length es
       \<and> count_list (fst (opcua_task retry_delay es)) (Sleep retry_delay) = length es - 1"
  using opcua_task_retryable [OF assms, of retry_delay] by (simp add: count_retry_trace)

theorem retries_forever_witness:
  "retryable (Exc [OSError, Exception, BaseException])
   \<and> retryable (Exc [AsyncioTimeoutError, Exception, BaseException])
   \<and> opcua_task 5 [Exc [OSError, Exception, BaseException],
                    Exc [AsyncioTimeoutError, Exception, BaseException],
                    Exc [OSError, Exception, BaseException]]
     = ([Connect, LogClientError (Exc [OSError, Exception, BaseException]),
         LogRetry 5, Sleep 5, Connect,
         LogClientError (Exc [AsyncioTimeoutError, Exception, BaseException]),
         LogRetry 5, Sleep 5, Connect, LogClientError (Exc [OSError, Exception, BaseException])],
        Running)"
  using retries_forever [of "[Exc [OSError, Exception, BaseException],
                    Exc [AsyncioTimeoutError, Exception, BaseException],
                    Exc [OSError, Exception, BaseException]]" 5]
  by (simp add: retryable_def isinstance_def)

text \<open>
  C6. An error raised in the body of the \<^verbatim>\<open>try\<close> statement of
  \<open>opcua_task\<close> is swallowed and turned into a retry when it is an instance of
  \<^verbatim>\<open>OSError\<close> or of \<^verbatim>\<open>asyncio.TimeoutError\<close>, and only then: every
  other error leaves \<open>opcua_task\<close>, whatever would have come after it.
\<close>

theorem swallowed_iff_network_class:
  assumes "\<forall>e'\<in>set pre. retryable e'"
  shows "(isinstance e OSError \<or> isinstance e AsyncioTimeoutError \<longrightarrow>
            opcua_task d (pre @ [e]) = (retry_trace d (pre @ [e]), Running))
       \<and> (\<not> (isinstance e OSError \<or> isinstance e AsyncioTimeoutError) \<longrightarrow>
            snd (opcua_task d (pre @ e # rest)) = Raised e)"
proof (intro conjI impI)
  assume "isinstance e OSError \<or> isinstance e AsyncioTimeoutError"
  then have "retryable e" by (simp add: retryable_def)
  with assms have "\<forall>e'\<in>set (pre @ [e]). retryable e'" by simp
  then show "opcua_task d (pre @ [e]) = (retry_trace d (pre @ [e]), Running)"
    by (rule opcua_task_retryable)
next
  assume "\<not> (isinstance e OSError \<or> isinstance e AsyncioTimeoutError)"
  then have "\<not> retryable e" by (simp add: retryable_def)
  with assms show "snd (opcua_task d (pre @ e # rest)) = Raised e"
    unfolding opcua_task_def by (rule opcua_loop_raises)
qed

theorem swallowed_iff_network_class_witness:
  "retryable (Exc [OSError, Exception, BaseException])
   \<and> opcua_task 5 [Exc [OSError, Exception, BaseException],
                    Exc [OtherClass ''ConnectionRefusedError'', OtherClass ''ConnectionError'',
                         OSError, Exception, BaseException]]
     = ([Connect, LogClientError (Exc [OSError, Exception, BaseException]),
         LogRetry 5, Sleep 5, Connect,
         LogClientError (Exc [OtherClass ''ConnectionRefusedError'',
                              OtherClass ''ConnectionError'', OSError, Exception, BaseException])],
        Running)
   \<and> snd (opcua_task 5 [Exc [OSError, Exception, BaseException], CancelledError_exc,
                         Exc [OSError, Exception, BaseException]])
     = Raised CancelledError_exc"
  using swallowed_iff_network_class [of "[Exc [OSError, Exception, BaseException]]"
          "Exc [OtherClass ''ConnectionRefusedError'', OtherClass ''ConnectionError'',
                OSError, Exception, BaseException]" 5]
        swallowed_iff_network_class [of "[Exc [OSError, Exception, BaseException]]"
          CancelledError_exc 5 "[Exc [OSError, Exception, BaseException]]"]
  by (simp add: retryable_def isinstance_def CancelledError_exc_def)

section \<open>Properties of the encoder\<close>

lemma json_dumps_cases:
  "(unencodable v \<longrightarrow> json_dumps v = Inl TypeError_exc)
     \<and> (\<not> unencodable v \<longrightarrow> (\<exists>t. json_dumps v = Inr t))"
  "(unencodable_list vs \<longrightarrow> json_dumps_list vs = Inl TypeError_exc)
     \<and> (\<not> unencodable_list vs \<longrightarrow> (\<exists>ts. json_dumps_list vs = Inr ts))"
  "(unencodable_items seen kvs \<longrightarrow> json_dumps_items seen kvs = Inl TypeError_exc)
     \<and> (\<not> unencodable_items seen kvs \<longrightarrow> (\<exists>ts. json_dumps_items seen kvs = Inr ts))"
  by (induction v and vs and seen kvs rule: json_dumps_json_dumps_list_json_dumps_items.induct)
     auto

lemma json_dumps_default:
  "json_dumps (UaStruct attrs) = (case default (UaStruct attrs) of Inl e \<Rightarrow> Inl e | Inr d \<Rightarrow> json_dumps d)"
  "json_dumps Opaque = (case default Opaque of Inl e \<Rightarrow> Inl e | Inr d \<Rightarrow> json_dumps d)"
  by simp_all

text \<open>
  A notification that is published carries a message that is not empty: it is the
  text of a JSON object.
\<close>

lemma datachange_notification_message:
  assumes "datachange_notification s identifier val = (None, s')"
  shows "\<exists>m. last_message s' = Some m \<and> m \<noteq> []"
  using assms
  by (auto simp: datachange_notification_def Let_def last_message_publish
           split: sum.splits)

lemma json_dumps_raises_TypeError: "json_dumps v = Inl e \<Longrightarrow> e = TypeError_exc"
  using json_dumps_cases(1) [of v] by (cases "unencodable v") auto

lemma datachange_notification_unencodable:
  "unencodable val \<Longrightarrow> datachange_notification s ident val = (Some TypeError_exc, s)"
proof -
  assume "unencodable val"
  then have "json_dumps val = Inl TypeError_exc"
    using json_dumps_cases(1) by blast
  then show ?thesis by (simp add: datachange_notification_def)
qed

lemma call_datachange_unencodable:
  "unencodable val \<Longrightarrow> call_datachange s ident val = (Logged TypeError_exc, s)"
  by (simp add: call_datachange_def datachange_notification_unencodable isinstance_def
        TypeError_exc_def)

lemma session_unencodable:
  "unencodable val \<Longrightarrow>
   session s (Notify ident val # evs) =
     (case session s evs of (es, logged, s') \<Rightarrow> (es, TypeError_exc # logged, s'))"
  by (simp add: call_datachange_unencodable)

lemma session_skip:
  assumes "unencodable val"
  shows "fst (session s (pre @ Notify ident val # rest)) = fst (session s (pre @ rest))
       \<and> snd (snd (session s (pre @ Notify ident val # rest)))
           = snd (snd (session s (pre @ rest)))"
proof (induction pre arbitrary: s)
  case Nil
  from session_unencodable [where s = s and ident = ident and evs = rest, OF assms]
  show ?case
    by (simp del: session.simps split: prod.splits)
next
  case (Cons ev pre)
  show ?case
  proof (cases ev)
    case (Notify i v)
    obtain r s' where c: "call_datachange s i v = (r, s')" by (cases "call_datachange s i v")
    from Cons.IH [of s'] c Notify show ?thesis
      by (cases r) (auto split: prod.splits)
  next
    case (BodyRaises e)
    from Cons.IH [of s] BodyRaises show ?thesis
      by (auto split: prod.splits)
  qed
qed

text \<open>
  C10 (amended). When the value of a data-change notification has a component without
  \<^verbatim>\<open>ua_types\<close> that the JSON encoder does not know,
  \<open>datachange_notification\<close> raises \<^verbatim>\<open>TypeError\<close> before \<open>publish\<close>
  is called, so the last message and every queue are as before. \<^verbatim>\<open>TypeError\<close>
  is not in the class the retry handler of \<open>opcua_task\<close> catches, but it does
  not reach that handler and does not leave the retry loop: the library, which calls
  the subscription handler, catches the exception and logs it. At any point of any
  session, such a notification changes neither what \<open>opcua_task\<close> does nor the
  state.
\<close>

theorem unencodable_value_not_published:
  assumes "unencodable val"
  shows "datachange_notification s ident val = (Some TypeError_exc, s)
       \<and> \<not> retryable TypeError_exc
       \<and> call_datachange s ident val = (Logged TypeError_exc, s)
       \<and> fst (opcua_task_session retry_delay s (pre @ Notify ident val # rest))
           = fst (opcua_task_session retry_delay s (pre @ rest))
       \<and> snd (snd (opcua_task_session retry_delay s (pre @ Notify ident val # rest)))
           = snd (snd (opcua_task_session retry_delay s (pre @ rest)))"
proof -
  have "\<not> retryable TypeError_exc"
    by (simp add: retryable_def isinstance_def TypeError_exc_def)
  moreover
  from session_skip [where s = s and pre = pre and ident = ident and rest = rest,
         OF assms]
  have "fst (opcua_task_session retry_delay s (pre @ Notify ident val # rest))
           = fst (opcua_task_session retry_delay s (pre @ rest))"
    and "snd (snd (opcua_task_session retry_delay s (pre @ Notify ident val # rest)))
           = snd (snd (opcua_task_session retry_delay s (pre @ rest)))"
    by (simp_all add: opcua_task_session_def split_beta)
  ultimately show ?thesis
    using assms by (simp add: datachange_notification_unencodable call_datachange_unencodable)
qed

theorem unencodable_value_not_published_witness:
  "unencodable (UaStruct [(''x'', PInt 1), (''y'', PList [PStr ''a'', Opaque])])
   \<and> datachange_notification (publish (subscription_enter Hub_init 7) ''old'') ''node''
        (UaStruct [(''x'', PInt 1), (''y'', PList [PStr ''a'', Opaque])])
      = (Some TypeError_exc, publish (subscription_enter Hub_init 7) ''old'')
   \<and> fst (opcua_task_session 5 (publish (subscription_enter Hub_init 7) ''old'')
        [BodyRaises (Exc [OSError, Exception, BaseException]),
         Notify ''node'' (UaStruct [(''x'', PInt 1), (''y'', PList [PStr ''a'', Opaque])]),
         BodyRaises (Exc [OSError, Exception, BaseException])])
      = ([Connect, LogClientError (Exc [OSError, Exception, BaseException]),
          LogRetry 5, Sleep 5, Connect, LogClientError (Exc [OSError, Exception, BaseException])],
         Running)"
  using unencodable_value_not_published
          [of "UaStruct [(''x'', PInt 1), (''y'', PList [PStr ''a'', Opaque])]"
              "publish (subscription_enter Hub_init 7) ''old''" "''node''" 5
              "[BodyRaises (Exc [OSError, Exception, BaseException])]"
              "[BodyRaises (Exc [OSError, Exception, BaseException])]"]
  by (simp add: opcua_task_session_def opcua_task_def retryable_def isinstance_def)

text \<open>
  C10 as stated fails in its last part: after a notification with an unencodable
  value \<open>opcua_task\<close> is still in its loop, the \<^verbatim>\<open>TypeError\<close> is in the
  log of the library, and a later network error is retried as usual.
\<close>

theorem unencodable_value_stays_in_loop_counterexample:
  "fst (opcua_task_session 5 Hub_init [Notify ''node'' (PList [Opaque])]) = ([], Running)
   \<and> fst (snd (opcua_task_session 5 Hub_init [Notify ''node'' (PList [Opaque])]))
       = [TypeError_exc]
   \<and> snd (fst (opcua_task_session 5 Hub_init [Notify ''node'' (PList [Opaque])]))
       \<noteq> Raised TypeError_exc
   \<and> fst (opcua_task_session 5 Hub_init
        [Notify ''node'' (PList [Opaque]), BodyRaises (Exc [OSError, Exception, BaseException])])
      = ([Connect, LogClientError (Exc [OSError, Exception, BaseException])], Running)"
  by (simp add: opcua_task_session_def opcua_task_def call_datachange_def
        datachange_notification_def retryable_def isinstance_def TypeError_exc_def)

section \<open>Properties of shutdown\<close>

lemma set_log_results:
  "LogShutdownError e \<in> set (log_results rs) \<longleftrightarrow>
     ExcResult e \<in> set rs \<and> isinstance e Exception \<and> \<not> isinstance e CancelledError"
  by (induction rs rule: log_results.induct) auto

lemma log_results_no_stop: "LoopStop \<notin> set (log_results rs)"
  by (induction rs rule: log_results.induct) auto

text \<open>
  C7. Among the results gathered at shutdown, exactly the exceptions that are not
  cancellation acknowledgments are logged as shutdown errors, so a
  \<^verbatim>\<open>CancelledError\<close> is never logged; every task but the current one is
  cancelled before they are all awaited, and the loop is stopped after that, as the
  last step.
\<close>

theorem shutdown_logs_errors_only:
  "(LogShutdownError e \<in> set (shutdown sig all_tasks current_task result_of) \<longleftrightarrow>
      (\<exists>t\<in>set all_tasks. t \<noteq> current_task \<and> result_of t = ExcResult e)
      \<and> isinstance e Exception \<and> \<not> isinstance e CancelledError)
   \<and> (\<exists>before after.
         shutdown sig all_tasks current_task result_of
           = before @ [Gather (filter (\<lambda>t. t \<noteq> current_task) all_tasks)] @ after @ [LoopStop]
         \<and> (\<forall>t\<in>set all_tasks. t \<noteq> current_task \<longrightarrow> Cancel t \<in> set before)
         \<and> LoopStop \<notin> set before \<and> LoopStop \<notin> set after)"
proof (intro conjI)
  show "LogShutdownError e \<in> set (shutdown sig all_tasks current_task result_of) \<longleftrightarrow>
      (\<exists>t\<in>set all_tasks. t \<noteq> current_task \<and> result_of t = ExcResult e)
      \<and> isinstance e Exception \<and> \<not> isinstance e CancelledError"
  proof -
    have "LogShutdownError e \<in> set (shutdown sig all_tasks current_task result_of) \<longleftrightarrow>
          LogShutdownError e
            \<in> set (log_results (map result_of (filter (\<lambda>t. t \<noteq> current_task) all_tasks)))"
      by (cases sig) (auto simp: shutdown_def Let_def)
    moreover have "ExcResult e \<in> set (map result_of (filter (\<lambda>t. t \<noteq> current_task) all_tasks))
          \<longleftrightarrow> (\<exists>t\<in>set all_tasks. t \<noteq> current_task \<and> result_of t = ExcResult e)"
      by force
    ultimately show ?thesis by (simp only: set_log_results)
  qed
next
  let ?tasks = "filter (\<lambda>t. t \<noteq> current_task) all_tasks"
  let ?before = "(case sig of Some name \<Rightarrow> [LogSignal name] | None \<Rightarrow> [])
                 @ map Cancel ?tasks @ [LogWaiting (length ?tasks)]"
  let ?after = "log_results (map result_of ?tasks)"
  have "shutdown sig all_tasks current_task result_of
          = ?before @ [Gather ?tasks] @ ?after @ [LoopStop]"
    by (simp add: shutdown_def Let_def)
  moreover have "\<forall>t\<in>set all_tasks. t \<noteq> current_task \<longrightarrow> Cancel t \<in> set ?before"
    by auto
  moreover have "LoopStop \<notin> set ?before"
    by (cases sig) auto
  moreover have "LoopStop \<notin> set ?after"
    by (rule log_results_no_stop)
  ultimately show "\<exists>before after.
         shutdown sig all_tasks current_task result_of
           = before @ [Gather ?tasks] @ after @ [LoopStop]
         \<and> (\<forall>t\<in>set all_tasks. t \<noteq> current_task \<longrightarrow> Cancel t \<in> set before)
         \<and> LoopStop \<notin> set before \<and> LoopStop \<notin> set after"
    by blast
qed

theorem shutdown_logs_errors_only_witness:
  "shutdown (Some ''SIGTERM'') [0, 1, 2, 3] 2
     (\<lambda>t. if t = 0 then ExcResult CancelledError_exc
          else if t = 1 then ExcResult KeyError_exc else Value)
     = [LogSignal ''SIGTERM'', Cancel 0, Cancel 1, Cancel 3, LogWaiting 3, Gather [0, 1, 3],
        LogShutdownError KeyError_exc, LoopStop]
   \<and> isinstance KeyError_exc Exception \<and> \<not> isinstance KeyError_exc CancelledError
   \<and> LogShutdownError KeyError_exc
       \<in> set (shutdown (Some ''SIGTERM'') [0, 1, 2, 3] 2
                (\<lambda>t. if t = 0 then ExcResult CancelledError_exc
                     else if t = 1 then ExcResult KeyError_exc else Value))"
  using shutdown_logs_errors_only [of KeyError_exc "Some ''SIGTERM''" "[0, 1, 2, 3]" 2
          "\<lambda>t. if t = 0 then ExcResult CancelledError_exc
               else if t = 1 then ExcResult KeyError_exc else Value"]
  by (simp add: shutdown_def isinstance_def KeyError_exc_def CancelledError_exc_def)

section \<open>Properties of the connection handlers\<close>

lemma websockets_handler_loop_steps:
  "websockets_handler_loop a (MsgDone m None # ws) =
     (case websockets_handler_loop a ws of
        (tr, out) \<Rightarrow> ([Send m, CreateTask TaskMsgWait] @ tr, out))"
  "websockets_handler_loop a (MsgDone m (Some e) # ws) = ([Send m], Raised e)"
  "websockets_handler_loop a (CloseDone # ws) =
     ([LogDisconnected a, CancelTask TaskMsgWait, AwaitTask TaskMsgWait],
      Raised CancelledError_exc)"
  "websockets_handler_loop a (BothDone True m None # ws) =
     ([Send m, CreateTask TaskMsgWait, LogDisconnected a], Returned)"
  "websockets_handler_loop a (BothDone False m None # ws) =
     ([LogDisconnected a, Send m, CreateTask TaskMsgWait], Returned)"
  "websockets_handler_loop a (BothDone True m (Some e) # ws) = ([Send m], Raised e)"
  "websockets_handler_loop a (BothDone False m (Some e) # ws) =
     ([LogDisconnected a, Send m], Raised e)"
  by (simp_all add: websockets_handler_loop.simps await_cancelled_def split: prod.splits)

lemma handler_loop_steps:
  "handler_loop a (MsgDone m None # ws) =
     (case handler_loop a ws of
        (tr, out) \<Rightarrow> ([Send m, CreateTask TaskMsgWait] @ tr, out))"
  "handler_loop a (MsgDone m (Some e) # ws) = ([Send m], Raised e)"
  "handler_loop a (CloseDone # ws) =
     ([LogDisconnected a, CancelTask TaskMsgWait, AwaitTask TaskMsgWait], Returned)"
  "handler_loop a (BothDone True m None # ws) =
     ([Send m, CreateTask TaskMsgWait, LogDisconnected a], Returned)"
  "handler_loop a (BothDone False m None # ws) =
     ([LogDisconnected a, Send m, CreateTask TaskMsgWait], Returned)"
  "handler_loop a (BothDone True m (Some e) # ws) = ([Send m], Raised e)"
  "handler_loop a (BothDone False m (Some e) # ws) =
     ([LogDisconnected a, Send m], Raised e)"
  by (simp_all add: handler_loop.simps await_cancelled_def isinstance_def CancelledError_exc_def
        split: prod.splits)

declare websockets_handler_loop.simps [simp del] handler_loop.simps [simp del]

lemma loops_Nil:
  "websockets_handler_loop a [] = ([], Running)"
  "handler_loop a [] = ([], Running)"
  by (simp_all add: websockets_handler_loop.simps handler_loop.simps)

lemma loops_Thrown:
  "websockets_handler_loop a (Thrown e # ws) = ([], Raised e)"
  "handler_loop a (Thrown e # ws) = ([], Raised e)"
  by (simp_all add: websockets_handler_loop.simps handler_loop.simps)

lemma websockets_handler_loop_deliveries:
  "\<forall>w\<in>set pre. delivery w \<Longrightarrow>
   websockets_handler_loop a (pre @ ws) =
     (case websockets_handler_loop a ws of (tr, out) \<Rightarrow> (deliveries pre @ tr, out))"
proof (induction pre)
  case Nil
  then show ?case by (simp split: prod.splits)
next
  case (Cons w pre)
  from Cons.prems have "delivery w" by simp
  then obtain m where w: "w = MsgDone m None"
    by (cases w rule: delivery.cases) simp_all
  from Cons show ?case
    by (simp add: w websockets_handler_loop_steps split: prod.splits)
qed

lemma count_deliveries:
  "count_list (deliveries pre) (CancelTask t) = 0"
  "count_list (deliveries pre) (AwaitTask t) = 0"
  "count_list (deliveries pre) (RemoveSubscription q) = 0"
  by (induction pre) simp_all

text \<open>
  C4. When the close of the connection completes while a \<^verbatim>\<open>get()\<close> on the
  queue is pending, after any number of deliveries, \<open>websockets_handler\<close> cancels
  the pending get and awaits it, each exactly once, calls
  \<^verbatim>\<open>remove_subscription\<close> on its queue exactly once, and ends. It ends by
  the \<^verbatim>\<open>CancelledError\<close> that the await of the cancelled task raises.
\<close>

theorem close_while_get_pending:
  assumes "\<forall>w\<in>set pre. delivery w"
  shows "websockets_handler addr q (pre @ CloseDone # rest) =
           ([LogConnected addr, AddSubscription q,
             CreateTask TaskMsgWait, CreateTask TaskClientDisconnect]
            @ deliveries pre
            @ [LogDisconnected addr, CancelTask TaskMsgWait, AwaitTask TaskMsgWait,
               RemoveSubscription q],
            Raised CancelledError_exc)
       \<and> count_list (fst (websockets_handler addr q (pre @ CloseDone # rest)))
            (CancelTask TaskMsgWait) = 1
       \<and> count_list (fst (websockets_handler addr q (pre @ CloseDone # rest)))
            (AwaitTask TaskMsgWait) = 1
       \<and> count_list (fst (websockets_handler addr q (pre @ CloseDone # rest)))
            (RemoveSubscription q) = 1"
proof -
  have loop: "websockets_handler_loop addr (pre @ CloseDone # rest) =
      (deliveries pre @ [LogDisconnected addr, CancelTask TaskMsgWait, AwaitTask TaskMsgWait],
       Raised CancelledError_exc)"
    using websockets_handler_loop_deliveries [OF assms, of addr "CloseDone # rest"]
    by (simp add: websockets_handler_loop_steps)
  then have run: "websockets_handler addr q (pre @ CloseDone # rest) =
           ([LogConnected addr, AddSubscription q,
             CreateTask TaskMsgWait, CreateTask TaskClientDisconnect]
            @ deliveries pre
            @ [LogDisconnected addr, CancelTask TaskMsgWait, AwaitTask TaskMsgWait,
               RemoveSubscription q],
            Raised CancelledError_exc)"
    by (simp add: websockets_handler_def subscription_def Let_def)
  then show ?thesis by (simp add: count_deliveries)
qed

theorem close_while_get_pending_witness:
  "delivery (MsgDone ''a'' None) \<and> delivery (MsgDone ''b'' None)
   \<and> websockets_handler ''10.0.0.1'' 7 [MsgDone ''a'' None, MsgDone ''b'' None, CloseDone] =
       ([LogConnected ''10.0.0.1'', AddSubscription 7,
         CreateTask TaskMsgWait, CreateTask TaskClientDisconnect,
         Send ''a'', CreateTask TaskMsgWait, Send ''b'', CreateTask TaskMsgWait,
         LogDisconnected ''10.0.0.1'', CancelTask TaskMsgWait, AwaitTask TaskMsgWait,
         RemoveSubscription 7],
        Raised CancelledError_exc)"
  using close_while_get_pending [of "[MsgDone ''a'' None, MsgDone ''b'' None]" "''10.0.0.1''" 7 "[]"]
  by simp

lemma actions_visit_done:
  "actions (fst (visit_done a ts m se b)) = actions (fst (visit_done a' ts m se b))
   \<and> snd (visit_done a ts m se b) = snd (visit_done a' ts m se b)"
  by (induction a ts m se b rule: visit_done.induct)
     (auto simp: actions_def split: option.splits prod.splits)

lemma loops_agree:
  "actions (fst (websockets_handler_loop a ws)) = actions (fst (handler_loop a' ws))
   \<and> (snd (websockets_handler_loop a ws) = snd (handler_loop a' ws)
      \<or> snd (websockets_handler_loop a ws) = Raised CancelledError_exc
        \<and> snd (handler_loop a' ws) = Returned)"
proof (induction ws)
  case Nil
  then show ?case by (simp add: loops_Nil)
next
  case (Cons w ws)
  show ?case
  proof (cases w)
    case (MsgDone m se)
    with Cons show ?thesis
      by (cases se)
         (auto simp: websockets_handler_loop_steps handler_loop_steps actions_def
               split: prod.splits)
  next
    case CloseDone
    then show ?thesis
      by (simp add: websockets_handler_loop_steps handler_loop_steps actions_def)
  next
    case (BothDone first m se)
    then show ?thesis
      by (cases se; cases first)
         (simp_all add: websockets_handler_loop_steps handler_loop_steps actions_def)
  next
    case (Thrown e)
    then show ?thesis by (simp add: loops_Thrown)
  qed
qed

lemma close_pending_split:
  assumes "w # ws = pre @ CloseDone # rest" and "\<forall>v\<in>set pre. delivery v"
  shows "w = CloseDone \<and> pre = []
       \<or> delivery w \<and> (\<exists>pre'. pre = w # pre' \<and> ws = pre' @ CloseDone # rest
                                \<and> (\<forall>v\<in>set pre'. delivery v))"
proof (cases pre)
  case Nil
  with assms show ?thesis by simp
next
  case (Cons v pre')
  with assms show ?thesis by auto
qed

lemma close_pending_iff:
  "close_pending ws \<longleftrightarrow> (\<exists>pre rest. ws = pre @ CloseDone # rest \<and> (\<forall>w\<in>set pre. delivery w))"
proof (induction ws)
  case Nil
  then show ?case by simp
next
  case (Cons w ws)
  show ?case
  proof
    assume cp: "close_pending (w # ws)"
    show "\<exists>pre rest. w # ws = pre @ CloseDone # rest \<and> (\<forall>w\<in>set pre. delivery w)"
    proof (cases "w = CloseDone")
      case True
      then have "w # ws = [] @ CloseDone # ws \<and> (\<forall>w\<in>set []. delivery w)" by simp
      then show ?thesis by blast
    next
      case False
      with cp have d: "delivery w" and "close_pending ws"
        by (cases w rule: delivery.cases; simp)+
      with Cons.IH obtain pre rest where "ws = pre @ CloseDone # rest"
        and "\<forall>w\<in>set pre. delivery w" by blast
      with d have "w # ws = (w # pre) @ CloseDone # rest \<and> (\<forall>v\<in>set (w # pre). delivery v)"
        by simp
      then show ?thesis by blast
    qed
  next
    assume "\<exists>pre rest. w # ws = pre @ CloseDone # rest \<and> (\<forall>w\<in>set pre. delivery w)"
    then obtain pre rest where e: "w # ws = pre @ CloseDone # rest"
      and d: "\<forall>v\<in>set pre. delivery v" by blast
    from close_pending_split [OF e d] show "close_pending (w # ws)"
    proof
      assume "w = CloseDone \<and> pre = []"
      then show ?thesis by simp
    next
      assume "delivery w \<and> (\<exists>pre'. pre = w # pre' \<and> ws = pre' @ CloseDone # rest
                                \<and> (\<forall>v\<in>set pre'. delivery v))"
      then have dw: "delivery w" and "close_pending ws"
        using Cons.IH by blast+
      from dw obtain m where "w = MsgDone m None"
        by (cases w rule: delivery.cases) simp_all
      with \<open>close_pending ws\<close> show ?thesis by simp
    qed
  qed
qed

lemma loops_end:
  "(close_pending ws \<longrightarrow>
      snd (websockets_handler_loop a ws) = Raised CancelledError_exc
      \<and> snd (handler_loop a' ws) = Returned)
   \<and> (\<not> close_pending ws \<longrightarrow>
      snd (websockets_handler_loop a ws) = snd (handler_loop a' ws))"
proof (induction ws)
  case Nil
  then show ?case by (simp add: loops_Nil)
next
  case (Cons w ws)
  show ?case
  proof (cases w)
    case (MsgDone m se)
    with Cons show ?thesis
      by (cases se)
         (auto simp: websockets_handler_loop_steps handler_loop_steps split: prod.splits)
  next
    case CloseDone
    then show ?thesis
      by (simp add: websockets_handler_loop_steps handler_loop_steps)
  next
    case (BothDone first m se)
    then show ?thesis
      by (cases se; cases first)
         (simp_all add: websockets_handler_loop_steps handler_loop_steps)
  next
    case (Thrown e)
    then show ?thesis by (simp add: loops_Thrown)
  qed
qed


text \<open>When \<open>get_client_address\<close> returns and when it raises.\<close>

lemma get_client_address_cases:
  "get_client_address request_headers remote_address =
     (case header_values request_headers ''X-Real-Ip'' of
        [] \<Rightarrow>
          (case header_values request_headers ''X-Forwarded-For'' of
             [] \<Rightarrow> Inr (remote_address, ''socket peer name'')
           | [a] \<Rightarrow> Inr (a, ''X-Forwarded-For'')
           | a # a' # as \<Rightarrow> Inl MultipleValuesError_exc)
      | [a] \<Rightarrow> Inr (a, ''X-Real-Ip'')
      | a # a' # as \<Rightarrow> Inl MultipleValuesError_exc)"
  by (simp add: get_client_address_def headers_getitem_def isinstance_def KeyError_exc_def
        MultipleValuesError_exc_def split: list.splits)

text \<open>
  C9 (amended). When the request does not repeat the header
  \<^verbatim>\<open>X-Real-Ip\<close> (nor, in its absence, \<^verbatim>\<open>X-Forwarded-For\<close>), then for
  every sequence of results of \<^verbatim>\<open>asyncio.wait\<close> the handlers
  \<open>websockets_handler\<close> and \<^verbatim>\<open>_handler\<close> do the same things apart from
  logging, in the same order: the same sends, the same task creations, the same
  cancel and await of the pending get, the same subscribe and unsubscribe. When the
  close completes with the get pending, after any number of deliveries,
  \<^verbatim>\<open>_handler\<close> returns and \<open>websockets_handler\<close> is left by
  \<^verbatim>\<open>CancelledError\<close>; in every other case they end in the same way. When the
  header is repeated, \<^verbatim>\<open>_handler\<close> is left by
  \<^verbatim>\<open>MultipleValuesError\<close> before it logs or subscribes.
\<close>

theorem handlers_same_actions:
  "(\<forall>addr. get_client_address request_headers remote_address = Inr addr \<longrightarrow>
      actions (fst (websockets_handler remote_address q ws))
        = actions (fst (handler request_headers remote_address q ws))
      \<and> (close_pending ws \<longrightarrow>
            snd (websockets_handler remote_address q ws) = Raised CancelledError_exc
            \<and> snd (handler request_headers remote_address q ws) = Returned)
      \<and> (\<not> close_pending ws \<longrightarrow>
            snd (websockets_handler remote_address q ws)
              = snd (handler request_headers remote_address q ws)))
   \<and> (\<forall>e. get_client_address request_headers remote_address = Inl e \<longrightarrow>
          e = MultipleValuesError_exc
          \<and> handler request_headers remote_address q ws = ([], Raised e))
   \<and> ((\<exists>addr. get_client_address request_headers remote_address = Inr addr) \<longleftrightarrow>
          length (header_values request_headers ''X-Real-Ip'') \<le> 1
          \<and> (header_values request_headers ''X-Real-Ip'' = [] \<longrightarrow>
                length (header_values request_headers ''X-Forwarded-For'') \<le> 1))
   \<and> (close_pending ws \<longleftrightarrow>
          (\<exists>pre rest. ws = pre @ CloseDone # rest \<and> (\<forall>w\<in>set pre. delivery w)))"
proof (intro conjI allI impI)
  fix addr
  assume g: "get_client_address request_headers remote_address = Inr addr"
  obtain ca af where addr: "addr = (ca, af)" by (cases addr)
  let ?a' = "ca @ '' ('' @ af @ '')''"
  obtain tr out where l1: "websockets_handler_loop remote_address ws = (tr, out)"
    by (cases "websockets_handler_loop remote_address ws")
  obtain tr' out' where l2: "handler_loop ?a' ws = (tr', out')"
    by (cases "handler_loop ?a' ws")
  from loops_agree [of remote_address ws ?a'] l1 l2
  have tr: "actions tr = actions tr'"
    and out: "out = out' \<or> out = Raised CancelledError_exc \<and> out' = Returned"
    by simp_all
  from loops_end [of ws remote_address ?a'] l1 l2
  have e1: "close_pending ws \<Longrightarrow> out = Raised CancelledError_exc \<and> out' = Returned"
    and e2: "\<not> close_pending ws \<Longrightarrow> out = out'"
    by simp_all
  have w: "websockets_handler remote_address q ws =
      (LogConnected remote_address # AddSubscription q # CreateTask TaskMsgWait
         # CreateTask TaskClientDisconnect # tr
         @ (if out = Running then [] else [RemoveSubscription q]), out)"
    by (simp add: websockets_handler_def subscription_def Let_def l1)
  have h: "handler request_headers remote_address q ws =
      (LogConnected ?a' # AddSubscription q # CreateTask TaskMsgWait
         # CreateTask TaskClientDisconnect # tr'
         @ (if out' = Running then [] else [RemoveSubscription q]), out')"
    using l2 by (simp add: handler_def hub_subscribe_def Let_def g addr)
  from out have "(out = Running) = (out' = Running)" by auto
  with tr show "actions (fst (websockets_handler remote_address q ws))
        = actions (fst (handler request_headers remote_address q ws))"
    unfolding w h by (auto simp: actions_def)
  {
    assume "close_pending ws"
    with e1 show "snd (websockets_handler remote_address q ws) = Raised CancelledError_exc"
      and "snd (handler request_headers remote_address q ws) = Returned"
      unfolding w h by simp_all
  }
  {
    assume "\<not> close_pending ws"
    with e2 show "snd (websockets_handler remote_address q ws)
              = snd (handler request_headers remote_address q ws)"
      unfolding w h by simp
  }
next
  fix e
  assume g: "get_client_address request_headers remote_address = Inl e"
  then show "e = MultipleValuesError_exc"
    by (auto simp: get_client_address_cases split: list.splits)
  from g show "handler request_headers remote_address q ws = ([], Raised e)"
    by (simp add: handler_def)
next
  show "(\<exists>addr. get_client_address request_headers remote_address = Inr addr) \<longleftrightarrow>
          length (header_values request_headers ''X-Real-Ip'') \<le> 1
          \<and> (header_values request_headers ''X-Real-Ip'' = [] \<longrightarrow>
                length (header_values request_headers ''X-Forwarded-For'') \<le> 1)"
    by (auto simp: get_client_address_cases split: list.splits)
next
  show "close_pending ws \<longleftrightarrow>
          (\<exists>pre rest. ws = pre @ CloseDone # rest \<and> (\<forall>w\<in>set pre. delivery w))"
    by (rule close_pending_iff)
qed

lemma str_lower_names:
  "str_lower ''X-Real-Ip'' = ''x-real-ip''"
  "str_lower ''X-Forwarded-For'' = ''x-forwarded-for''"
  "str_lower ''x-real-ip'' = ''x-real-ip''"
  "str_lower ''X-Real-IP'' = ''x-real-ip''"
  "str_lower ''Host'' = ''host''"
  by (simp_all add: str_lower_def lower_char_def)

theorem handlers_same_actions_witness:
  "get_client_address [(''Host'', ''hmi''), (''x-real-ip'', ''192.0.2.7'')] ''10.0.0.1''
     = Inr (''192.0.2.7'', ''X-Real-Ip'')
   \<and> close_pending [MsgDone ''a'' None, CloseDone, MsgDone ''b'' None]
   \<and> \<not> close_pending [MsgDone ''a'' None, Thrown CancelledError_exc]
   \<and> handler [(''Host'', ''hmi''), (''x-real-ip'', ''192.0.2.7'')] ''10.0.0.1'' 7
        [MsgDone ''a'' None, CloseDone, MsgDone ''b'' None]
      = ([LogConnected ''192.0.2.7 (X-Real-Ip)'', AddSubscription 7,
          CreateTask TaskMsgWait, CreateTask TaskClientDisconnect,
          Send ''a'', CreateTask TaskMsgWait,
          LogDisconnected ''192.0.2.7 (X-Real-Ip)'', CancelTask TaskMsgWait,
          AwaitTask TaskMsgWait, RemoveSubscription 7],
         Returned)
   \<and> snd (websockets_handler ''10.0.0.1'' 7 [MsgDone ''a'' None, CloseDone, MsgDone ''b'' None])
      = Raised CancelledError_exc
   \<and> snd (handler [(''Host'', ''hmi''), (''x-real-ip'', ''192.0.2.7'')] ''10.0.0.1'' 7
        [MsgDone ''a'' None, Thrown CancelledError_exc])
      = Raised CancelledError_exc
   \<and> snd (websockets_handler ''10.0.0.1'' 7 [MsgDone ''a'' None, Thrown CancelledError_exc])
      = Raised CancelledError_exc"
  using handlers_same_actions [of "[(''Host'', ''hmi''), (''x-real-ip'', ''192.0.2.7'')]"
          "''10.0.0.1''" 7 "[MsgDone ''a'' None, CloseDone, MsgDone ''b'' None]"]
        handlers_same_actions [of "[(''Host'', ''hmi''), (''x-real-ip'', ''192.0.2.7'')]"
          "''10.0.0.1''" 7 "[MsgDone ''a'' None, Thrown CancelledError_exc]"]
  by (simp add: get_client_address_cases header_values_def str_lower_names
        handler_def hub_subscribe_def Let_def websockets_handler_def subscription_def
        websockets_handler_loop_steps handler_loop_steps loops_Thrown)

text \<open>
  C9 as stated fails: the handlers differ in more than the address they log. When the
  connection closes with the get pending, \<open>websockets_handler\<close> is left by the
  \<^verbatim>\<open>CancelledError\<close> of the awaited task, and \<^verbatim>\<open>_handler\<close>, which
  catches it, returns. And a request that repeats the header \<^verbatim>\<open>X-Real-Ip\<close>
  ends \<^verbatim>\<open>_handler\<close> before it subscribes, where \<open>websockets_handler\<close>,
  which reads no header, delivers.
\<close>

theorem handlers_differ_counterexample:
  "websockets_handler ''10.0.0.1'' 7 [CloseDone] =
     ([LogConnected ''10.0.0.1'', AddSubscription 7,
       CreateTask TaskMsgWait, CreateTask TaskClientDisconnect,
       LogDisconnected ''10.0.0.1'', CancelTask TaskMsgWait, AwaitTask TaskMsgWait,
       RemoveSubscription 7],
      Raised CancelledError_exc)
   \<and> handler [] ''10.0.0.1'' 7 [CloseDone] =
     ([LogConnected ''10.0.0.1 (socket peer name)'', AddSubscription 7,
       CreateTask TaskMsgWait, CreateTask TaskClientDisconnect,
       LogDisconnected ''10.0.0.1 (socket peer name)'', CancelTask TaskMsgWait,
       AwaitTask TaskMsgWait, RemoveSubscription 7],
      Returned)
   \<and> snd (websockets_handler ''10.0.0.1'' 7 [CloseDone])
       \<noteq> snd (handler [] ''10.0.0.1'' 7 [CloseDone])
   \<and> handler [(''X-Real-Ip'', ''192.0.2.7''), (''X-Real-IP'', ''192.0.2.8'')] ''10.0.0.1'' 7
        [MsgDone ''a'' None]
      = ([], Raised MultipleValuesError_exc)
   \<and> websockets_handler ''10.0.0.1'' 7 [MsgDone ''a'' None] =
     ([LogConnected ''10.0.0.1'', AddSubscription 7,
       CreateTask TaskMsgWait, CreateTask TaskClientDisconnect,
       Send ''a'', CreateTask TaskMsgWait],
      Running)"
  by (simp add: websockets_handler_def handler_def subscription_def hub_subscribe_def Let_def
        get_client_address_cases header_values_def str_lower_names
        websockets_handler_loop_steps handler_loop_steps loops_Nil)

end
